theory Spec2Isabelle
  imports Main "HOL-Library.Word"
begin

section \<open>Go values used by the program\<close>

text \<open>
  Byte slices and Go strings are \<open>string\<close> (a list of bytes). A Go \<open>error\<close> is
  represented by its message, the text that \<open>%s\<close> prints.
\<close>

type_synonym bytes = string
type_synonym error = string

text \<open>\<open>json.RawMessage\<close>: the undecoded bytes of one JSON value.\<close>

type_synonym RawMessage = bytes

text \<open>
  A Go slice is either \<open>nil\<close> (\<open>None\<close>) or holds a sequence of elements. \<open>range\<close> and
  \<open>len\<close> see a nil slice as empty; the JSON encoder does not.
\<close>

type_synonym 'a slice = "'a list option"

definition elems :: "'a slice \<Rightarrow> 'a list" where
  "elems s = (case s of None \<Rightarrow> [] | Some xs \<Rightarrow> xs)"

definition len :: "'a slice \<Rightarrow> int" where
  "len s = int (length (elems s))"

text \<open>
  \<open>map[string]interface{}\<close>: \<open>None\<close> is the nil map (what \<open>var tdoc\<close> holds before and
  after decoding the JSON value \<open>null\<close>), \<open>Some m\<close> an allocated map. The element type
  \<open>'v\<close> stands for the decoded values, which the program never inspects.
\<close>

type_synonym 'v gomap = "(string \<rightharpoonup> 'v) option"

definition lookup :: "'v gomap \<Rightarrow> string \<Rightarrow> 'v option" where
  "lookup m k = (case m of None \<Rightarrow> None | Some f \<Rightarrow> f k)"

text \<open>The builtin \<open>delete(m, key)\<close>: a no-op on a nil map and on a missing key.\<close>

definition delete :: "'v gomap \<Rightarrow> string \<Rightarrow> 'v gomap" where
  "delete m k = (case m of None \<Rightarrow> None | Some f \<Rightarrow> Some (f(k := None)))"

abbreviation nl :: string where
  "nl \<equiv> [CHR 0x0A]"

subsection \<open>The JSON library\<close>

text \<open>
  \<open>encoding/json\<close> is not part of the repository. Its three entry points that the
  program calls on single documents are parameters of the model:
  \<^item> \<open>Unmarshal\<close>: \<open>json.Unmarshal(srcDoc, &tdoc)\<close> into a fresh
    \<open>map[string]interface{}\<close>;
  \<^item> \<open>Marshal\<close>: \<open>json.Marshal(&tdoc)\<close> of such a map;
  \<^item> \<open>MarshalRaw\<close>: the encoding of one \<open>json.RawMessage\<close> element (the library
    validates and compacts the raw bytes).
\<close>

record 'v encoding_json =
  Unmarshal :: "RawMessage \<Rightarrow> error + 'v gomap"
  Marshal :: "'v gomap \<Rightarrow> error + bytes"
  MarshalRaw :: "RawMessage \<Rightarrow> error + bytes"

text \<open>Applying a fallible function to every element, stopping at the first error.\<close>

fun mapM :: "('a \<Rightarrow> error + 'b) \<Rightarrow> 'a list \<Rightarrow> error + 'b list" where
  "mapM f [] = Inr []"
| "mapM f (x # xs) =
     (case f x of
        Inl err \<Rightarrow> Inl err
      | Inr y \<Rightarrow> (case mapM f xs of Inl err \<Rightarrow> Inl err | Inr ys \<Rightarrow> Inr (y # ys)))"

text \<open>The elements of a JSON array, separated by commas.\<close>

fun joinComma :: "bytes list \<Rightarrow> bytes" where
  "joinComma [] = []"
| "joinComma [x] = x"
| "joinComma (x # y # zs) = x @ '','' @ joinComma (y # zs)"

text \<open>
  \<open>json.Marshal(v.Response.Docs)\<close> on a \<open>[]json.RawMessage\<close>, as the library documents
  it: a slice encodes as a JSON array of its elements' encodings, in order, and a nil
  slice encodes as the JSON value \<open>null\<close>.
\<close>

definition MarshalDocs :: "'v encoding_json \<Rightarrow> RawMessage slice \<Rightarrow> error + bytes" where
  "MarshalDocs j docs =
     (case docs of
        None \<Rightarrow> Inr ''null''
      | Some ds \<Rightarrow>
          (case mapM (MarshalRaw j) ds of
             Inl err \<Rightarrow> Inl err
           | Inr outs \<Rightarrow> Inr (''['' @ joinComma outs @ '']'')))"

subsection \<open>The raw-message encoder and the array decoder\<close>




































section \<open>The page writer\<close>

subsection \<open>\<open>rmVerField\<close>\<close>

text \<open>
  The per-document part of the loop body of \<open>rmVerField\<close>: decode \<open>srcDoc\<close> into
  \<open>tdoc\<close>, \<open>delete(tdoc, "_version_")\<close>, encode \<open>tdoc\<close> as \<open>dstDoc\<close>. Either library call
  may fail, and the function returns that error.
\<close>

definition rmVerDoc :: "'v encoding_json \<Rightarrow> RawMessage \<Rightarrow> error + bytes" where
  "rmVerDoc j srcDoc =
     (case Unmarshal j srcDoc of
        Inl err \<Rightarrow> Inl err
      | Inr tdoc \<Rightarrow> Marshal j (delete tdoc ''_version_''))"

text \<open>
  The loop \<open>for n, srcDoc := range docs\<close>: \<open>l\<close> is \<open>len(docs)\<close>, \<open>n\<close> the index of the
  next document, \<open>data\<close> the bytes accumulated so far. The comma is appended when
  \<open>n < len(docs)-1\<close>, on Go's signed \<open>int\<close>.
\<close>

fun rmVerLoop :: "'v encoding_json \<Rightarrow> int \<Rightarrow> int \<Rightarrow> RawMessage list \<Rightarrow> bytes \<Rightarrow> error + bytes" where
  "rmVerLoop j l n [] data = Inr data"
| "rmVerLoop j l n (srcDoc # rest) data =
     (case rmVerDoc j srcDoc of
        Inl err \<Rightarrow> Inl err
      | Inr dstDoc \<Rightarrow>
          rmVerLoop j l (n + 1) rest
            (if n < l - 1 then (data @ dstDoc) @ '','' else data @ dstDoc))"

definition rmVerField :: "'v encoding_json \<Rightarrow> RawMessage slice \<Rightarrow> error + bytes" where
  "rmVerField j docs =
     (case rmVerLoop j (len docs) 0 (elems docs) ''['' of
        Inl err \<Rightarrow> Inl err
      | Inr data \<Rightarrow> Inr (data @ '']'' @ nl))"

subsection \<open>\<open>saveSolrResp\<close>\<close>

text \<open>
  The destination \<open>dst io.Writer\<close>: \<open>Write\<close> returns the number of bytes it accepted and
  an error or nil; \<open>Repr\<close> is what \<open>%s\<close> prints for the writer in the diagnostic.
\<close>

record writer =
  Write :: "bytes \<Rightarrow> nat \<times> error option"
  Repr :: string

text \<open>
  The first half of \<open>saveSolrResp\<close>: the bytes to save, or the encoding error.
\<close>

definition encodePage :: "'v encoding_json \<Rightarrow> bool \<Rightarrow> RawMessage slice \<Rightarrow> error + bytes" where
  "encodePage j emptyfl docs =
     (if emptyfl then rmVerField j docs
      else (case MarshalDocs j docs of
              Inl err \<Rightarrow> Inl err
            | Inr data \<Rightarrow> Inr (data @ nl)))"

text \<open>
  \<open>saveSolrResp\<close> returns the error (or nil), the bytes that reached \<open>dst\<close> and the lines
  it printed on standard error.
\<close>

definition saveSolrResp ::
  "'v encoding_json \<Rightarrow> writer \<Rightarrow> bool \<Rightarrow> RawMessage slice \<Rightarrow> error option \<times> bytes \<times> string list" where
  "saveSolrResp j dst emptyfl docs =
     (case encodePage j emptyfl docs of
        Inl err \<Rightarrow> (Some err, [], [''error of Solr document proccessing. '' @ err @ nl])
      | Inr data \<Rightarrow>
          (case Write dst data of
             (n, Some err) \<Rightarrow>
               (Some err, take n data, [''error of writing to '' @ Repr dst @ ''. '' @ err])
           | (n, None) \<Rightarrow> (None, take n data, [])))"

section \<open>The consumer loop of \<open>main\<close> and its write tasks\<close>

subsection \<open>Formatting\<close>

text \<open>The verb \<open>%d\<close> of \<open>fmt.Sprintf\<close>: a signed integer in decimal.\<close>

function decimal :: "nat \<Rightarrow> string" where
  "decimal n =
     (if n < 10 then [''0123456789'' ! n]
      else decimal (n div 10) @ [''0123456789'' ! (n mod 10)])"
  by pat_completeness auto
termination
  by (relation "measure id") auto

declare decimal.simps [simp del]

definition fmtInt :: "int \<Rightarrow> string" where
  "fmtInt k = (if k < 0 then ''-'' @ decimal (nat (- k)) else decimal (nat k))"

subsection \<open>The environment of the loop\<close>

text \<open>
  What lines 243 to 275 of \<open>main\<close> have computed when the loop starts, and the
  operating system and libraries the loop calls:
  \<^item> \<open>json\<close>: the JSON library;
  \<^item> \<open>Create\<close>: \<open>os.Create(fName)\<close>, an error or the open file as a writer;
  \<^item> \<open>Join\<close>: \<open>filepath.Join\<close>;
  \<^item> \<open>namePattern\<close>, \<open>fullDirPath\<close>: the results of \<open>defNamePattern\<close> and \<open>mkDir\<close>;
  \<^item> \<open>flEmpty\<close>: the value of \<open>p.fl == ""\<close>.
\<close>

record 'v config =
  json :: "'v encoding_json"
  Create :: "string \<Rightarrow> error + writer"
  Join :: "string \<Rightarrow> string \<Rightarrow> string"
  namePattern :: string
  fullDirPath :: string
  flEmpty :: bool

text \<open>
  A result received from the channel: a \<open>*glsolr.Response\<close>, of which the program
  reads \<open>Response.Docs\<close> only, or an \<open>error\<close>.
\<close>

datatype result = Response "RawMessage slice" | Error error

fun responses :: "result list \<Rightarrow> RawMessage slice list" where
  "responses [] = []"
| "responses (Response docs # rs) = docs # responses rs"
| "responses (Error err # rs) = responses rs"


subsection \<open>State\<close>

text \<open>
  The program point of a write task (the goroutine started for one page):
  before \<open>os.Create\<close>; before \<open>saveSolrResp\<close>, holding the open file; before the
  assignment \<open>statusCode = 10\<close>; before the deferred \<open>wg.Done()\<close>; returned.
\<close>

datatype pc = AtCreate | AtSave writer | AtStore | AtDone | Finished

record goroutine =
  fName :: string
  resp :: "RawMessage slice"
  pc :: pc

text \<open>
  The main goroutine is in the \<open>for res := range results\<close> loop, blocked in
  \<open>wg.Wait()\<close>, or has called \<open>os.Exit\<close> with a code.
\<close>

datatype phase = Draining | Waiting | Exited int

text \<open>
  \<open>results\<close> is what the channel will still deliver before it is closed, \<open>fileIdx\<close> the
  variable \<open>i\<close> (an \<open>int\<close>, 64 bits wide on a 64-bit platform, where \<open>i++\<close> wraps
  around), \<open>wg\<close> the counter of the \<open>sync.WaitGroup\<close>,
  \<open>goroutines\<close> every write task started so far in the order of their start, \<open>stderr\<close>
  the lines printed on standard error, \<open>files\<close> the contents of the dump directory.
\<close>

record state =
  results :: "result list"
  fileIdx :: "64 word"
  wg :: int
  statusCode :: int
  goroutines :: "goroutine list"
  stderr :: "string list"
  files :: "string \<rightharpoonup> bytes"
  phase :: phase

definition init :: "result list \<Rightarrow> state" where
  "init rs =
     \<lparr> results = rs, fileIdx = 1, wg = 0, statusCode = 0, goroutines = [],
       stderr = [], files = Map.empty, phase = Draining \<rparr>"

subsection \<open>Steps\<close>

text \<open>
  One step of the main goroutine. In the loop it receives the next result: an error is
  printed; a response gets the file name built from \<open>i\<close>, \<open>i\<close> is incremented,
  \<open>wg.Add(1)\<close> and a write task is started; a closed channel ends the loop. In
  \<open>wg.Wait()\<close> it can step only when the counter is zero, and then calls
  \<open>os.Exit(statusCode)\<close>. \<open>None\<close> means that the goroutine cannot step.
\<close>

definition mainStep :: "'v config \<Rightarrow> state \<Rightarrow> state option" where
  "mainStep c s =
     (case phase s of
        Draining \<Rightarrow>
          (case results s of
             [] \<Rightarrow> Some (s\<lparr>phase := Waiting\<rparr>)
           | Error v # rest \<Rightarrow>
               Some (s\<lparr>results := rest, stderr := stderr s @ [''query error. '' @ v @ nl]\<rparr>)
           | Response v # rest \<Rightarrow>
               (let fileName = namePattern c @ fmtInt (sint (fileIdx s)) @ ''.json'';
                    fullFileName = Join c (fullDirPath c) fileName
                in Some (s\<lparr>results := rest,
                            fileIdx := fileIdx s + 1,
                            wg := wg s + 1,
                            goroutines := goroutines s @
                              [\<lparr>fName = fullFileName, resp = v, pc = AtCreate\<rparr>]\<rparr>)))
      | Waiting \<Rightarrow> (if wg s = 0 then Some (s\<lparr>phase := Exited (statusCode s)\<rparr>) else None)
      | Exited code \<Rightarrow> None)"

text \<open>
  One step of the write task \<open>g\<close>, the \<open>k\<close>-th started: the body of the function
  literal, one program point at a time. A failed \<open>os.Create\<close> prints the error and
  returns; an error of \<open>saveSolrResp\<close> leads to the assignment \<open>statusCode = 10\<close>;
  every path ends in the deferred \<open>wg.Done()\<close>. The deferred \<open>dst.Close()\<close> changes
  nothing of the state kept here.
\<close>

definition taskStep :: "'v config \<Rightarrow> state \<Rightarrow> nat \<Rightarrow> goroutine \<Rightarrow> state option" where
  "taskStep c s k g =
     (case pc g of
        AtCreate \<Rightarrow>
          (case Create c (fName g) of
             Inl err \<Rightarrow>
               Some (s\<lparr>stderr := stderr s @
                          [''error of creating the file '' @ fName g @ ''. '' @ err @ nl],
                        goroutines := (goroutines s)[k := g\<lparr>pc := AtDone\<rparr>]\<rparr>)
           | Inr dst \<Rightarrow>
               Some (s\<lparr>files := (files s)(fName g \<mapsto> []),
                        goroutines := (goroutines s)[k := g\<lparr>pc := AtSave dst\<rparr>]\<rparr>))
      | AtSave dst \<Rightarrow>
          (case saveSolrResp (json c) dst (flEmpty c) (resp g) of
             (err, written, msgs) \<Rightarrow>
               Some (s\<lparr>files := (files s)(fName g \<mapsto> written),
                        stderr := stderr s @ msgs,
                        goroutines := (goroutines s)
                          [k := g\<lparr>pc := (if err \<noteq> None then AtStore else AtDone)\<rparr>]\<rparr>))
      | AtStore \<Rightarrow>
          Some (s\<lparr>statusCode := 10, goroutines := (goroutines s)[k := g\<lparr>pc := AtDone\<rparr>]\<rparr>)
      | AtDone \<Rightarrow>
          Some (s\<lparr>wg := wg s - 1, goroutines := (goroutines s)[k := g\<lparr>pc := Finished\<rparr>]\<rparr>)
      | Finished \<Rightarrow> None)"

text \<open>
  The scheduler picks the main goroutine or a write task. Nothing runs once the process
  has exited, and a task that was never started cannot be picked.
\<close>

datatype action = Main | Task nat

definition step :: "'v config \<Rightarrow> state \<Rightarrow> action \<Rightarrow> state option" where
  "step c s a =
     (case a of
        Main \<Rightarrow> mainStep c s
      | Task k \<Rightarrow>
          (if phase s \<in> {Draining, Waiting} \<and> k < length (goroutines s)
           then taskStep c s k (goroutines s ! k) else None))"

text \<open>A run follows a schedule, a list of picks, as far as every pick can step.\<close>

fun run :: "'v config \<Rightarrow> state \<Rightarrow> action list \<Rightarrow> state option" where
  "run c s [] = Some s"
| "run c s (a # as) = (case step c s a of None \<Rightarrow> None | Some s' \<Rightarrow> run c s' as)"

text \<open>The name of the \<open>k\<close>-th file of a dump.\<close>

definition dumpFile :: "'v config \<Rightarrow> nat \<Rightarrow> string" where
  "dumpFile c k = Join c (fullDirPath c) (namePattern c @ decimal k @ ''.json'')"


subsection \<open>A sample of the library's behaviour\<close>

text \<open>
  Decoding into \<open>map[string]interface{}\<close> stores every JSON number as a \<open>float64\<close>.
  For a non-negative integer (below the range limit of the type) that is the nearest
  number with a significand of 53 bits, ties going to the even significand.
\<close>

fun bitlen :: "nat \<Rightarrow> nat" where
  "bitlen n = (if n = 0 then 0 else Suc (bitlen (n div 2)))"

declare bitlen.simps [simp del]

definition float64 :: "nat \<Rightarrow> nat" where
  "float64 n =
     (if n < 2 ^ 53 then n
      else (let e = bitlen n - 53; q = n div 2 ^ e; r = n mod 2 ^ e; half = 2 ^ (e - 1)
            in if half < r then (q + 1) * 2 ^ e
               else if r = half \<and> q mod 2 = 1 then (q + 1) * 2 ^ e
               else q * 2 ^ e))"

text \<open>
  What \<open>encoding/json\<close> returns on the documents used in the examples of this theory:
  a decoded number is kept as the text that the encoder prints for its \<open>float64\<close>,
  object keys are encoded in sorted order, raw messages are compacted. Every other
  input is answered with an error.
\<close>

definition sampleJSON :: "string encoding_json" where
  \<open>sampleJSON =
     \<lparr> Unmarshal = (\<lambda>d.
         if d = ''{"id":1,"_version_":7}'' then Inr (Some [''id'' \<mapsto> ''1'', ''_version_'' \<mapsto> ''7''])
         else if d = ''{"id":2}'' then Inr (Some [''id'' \<mapsto> ''2''])
         else if d = ''{"id":9007199254740993,"_version_":7}''
         then Inr (Some [''id'' \<mapsto> decimal (float64 9007199254740993), ''_version_'' \<mapsto> ''7''])
         else if d = ''null'' then Inr None
         else Inl ''json: document not in the sample''),
       Marshal = (\<lambda>m.
         case m of
           None \<Rightarrow> Inr ''null''
         | Some f \<Rightarrow>
             (case (f ''_version_'', f ''id'') of
                (None, Some n) \<Rightarrow> Inr (''{"id":'' @ n @ ''}'')
              | (Some v, Some n) \<Rightarrow> Inr (''{"_version_":'' @ v @ '',"id":'' @ n @ ''}'')
              | _ \<Rightarrow> Inl ''json: document not in the sample'')),
       MarshalRaw = (\<lambda>d.
         if d = ''{"id":1,"_version_":7}'' \<or> d = ''{"id":2}'' \<or> d = ''{"id":1}'' then Inr d
         else if d = ''{ "id": 2 }'' then Inr ''{"id":2}''
         else Inl ''json: document not in the sample'') \<rparr>\<close>

text \<open>A writer that accepts every byte, as a healthy file does.\<close>

definition okWriter :: writer where
  "okWriter = \<lparr> Write = (\<lambda>data. (length data, None)), Repr = ''&{file}'' \<rparr>"

subsection \<open>Sample runs\<close>

text \<open>
  A dump directory in which every file can be created and written; one in which the
  first file cannot be created; one on a full disk, where every write fails.
\<close>

definition sampleConfig :: "string config" where
  "sampleConfig =
     \<lparr> json = sampleJSON,
       Create = (\<lambda>name. Inr okWriter),
       Join = (\<lambda>dir name. dir @ ''/'' @ name),
       namePattern = ''solrsrv01.8983.gettingstarted.'',
       fullDirPath = ''dump'',
       flEmpty = True \<rparr>"

definition unwritable :: "string config" where
  "unwritable =
     sampleConfig\<lparr>Create := (\<lambda>name.
        if name = ''dump/solrsrv01.8983.gettingstarted.1.json''
        then Inl ''permission denied'' else Inr okWriter)\<rparr>"

definition fullDisk :: writer where
  "fullDisk = \<lparr> Write = (\<lambda>data. (0, Some ''no space left on device'')), Repr = ''&{file}'' \<rparr>"

definition diskFull :: "string config" where
  "diskFull = sampleConfig\<lparr>Create := (\<lambda>name. Inr fullDisk)\<rparr>"

text \<open>Two streams: two pages, and two pages with an error result between them.\<close>

definition twoPages :: "result list" where
  \<open>twoPages = [Response (Some [''{"id":1,"_version_":7}'']), Response (Some [''{"id":2}''])]\<close>

definition pagesAndError :: "result list" where
  \<open>pagesAndError =
     [Response (Some [''{"id":1,"_version_":7}'']), Error ''timeout'', Response (Some [''{"id":2}''])]\<close>

subsection \<open>Invariants of the loop\<close>

text \<open>
  What the main goroutine has received so far determines the write tasks it has
  started: one per response, in the order of arrival, the \<open>k\<close>-th of them on the file
  whose name is formatted from the value of \<open>i\<close> at that time.
\<close>

definition dispatched :: "'v config \<Rightarrow> result list \<Rightarrow> state \<Rightarrow> bool" where
  "dispatched c rs s \<longleftrightarrow>
     (\<exists>seen. rs = seen @ results s
        \<and> fileIdx s = word_of_nat (Suc (length (responses seen)))
        \<and> map resp (goroutines s) = responses seen
        \<and> map fName (goroutines s) =
            map (\<lambda>k. Join c (fullDirPath c)
                       (namePattern c @ fmtInt (sint (word_of_nat (Suc k) :: 64 word)) @ ''.json''))
              [0..<length (responses seen)])"

text \<open>The write tasks that have not returned yet.\<close>

definition outstanding :: "state \<Rightarrow> goroutine list" where
  "outstanding s = filter (\<lambda>g. pc g \<noteq> Finished) (goroutines s)"

text \<open>
  The counter of the wait group is the number of write tasks that have not returned,
  the loop is left only when the channel is closed, and the process exits only with a
  counter of zero, with the status it read then.
\<close>

definition joined :: "state \<Rightarrow> bool" where
  "joined s \<longleftrightarrow>
     wg s = int (length (outstanding s))
     \<and> (phase s \<noteq> Draining \<longrightarrow> results s = [])
     \<and> (\<forall>code. phase s = Exited code \<longrightarrow> wg s = 0 \<and> code = statusCode s)"

text \<open>
  The write of the page \<open>docs\<close> to the file \<open>name\<close> fails after the file was created:
  \<open>saveSolrResp\<close> returns an error.
\<close>

definition saveFails :: "'v config \<Rightarrow> string \<Rightarrow> RawMessage slice \<Rightarrow> bool" where
  "saveFails c name docs =
     (case Create c name of
        Inl err \<Rightarrow> False
      | Inr dst \<Rightarrow> fst (saveSolrResp (json c) dst (flEmpty c) docs) \<noteq> None)"

text \<open>
  \<open>statusCode\<close> is 0 or 10; it is 10 only if the \<open>saveSolrResp\<close> of some task has
  failed, and it is 10 once such a task has passed its assignment.
\<close>

definition status_inv :: "'v config \<Rightarrow> state \<Rightarrow> bool" where
  "status_inv c s \<longleftrightarrow>
     (statusCode s = 0 \<or> statusCode s = 10)
     \<and> (statusCode s = 10 \<longrightarrow> (\<exists>g \<in> set (goroutines s). saveFails c (fName g) (resp g)))
     \<and> (\<forall>g \<in> set (goroutines s).
          (\<forall>dst. pc g = AtSave dst \<longrightarrow> Create c (fName g) = Inr dst)
          \<and> (pc g = AtStore \<longrightarrow> saveFails c (fName g) (resp g))
          \<and> ((pc g = AtDone \<or> pc g = Finished) \<and> saveFails c (fName g) (resp g)
                \<longrightarrow> statusCode s = 10))"


text \<open>
  What the write task of the page \<open>docs\<close> leaves in the file \<open>name\<close>: nothing when
  the file cannot be created, else the bytes that \<open>saveSolrResp\<close> got into it.
\<close>

definition written :: "'v config \<Rightarrow> string \<Rightarrow> RawMessage slice \<Rightarrow> bytes option" where
  "written c name docs =
     (case Create c name of
        Inl err \<Rightarrow> None
      | Inr dst \<Rightarrow> Some (fst (snd (saveSolrResp (json c) dst (flEmpty c) docs))))"





subsection \<open>Compacted documents\<close>








section \<open>\<open>parceArgs\<close>\<close>

text \<open>The struct \<open>params\<close>; \<open>dirPerms\<close> is an \<open>os.FileMode\<close>, a \<open>uint32\<close>.\<close>

record params =
  cLink :: string
  q :: string
  fl :: string
  sort' :: string
  dstDir :: string
  user :: string
  passw :: string
  rows :: int
  httpTimeout :: int
  dirPerms :: "32 word"

text \<open>
  The values of the ten flags after \<open>parser.Parse\<close>, named after their long options:
  what the pointers \<open>cLink\<close>, \<open>q\<close>, \<open>fl\<close>, \<open>sort\<close>, \<open>rows\<close>, \<open>dstDir\<close>, \<open>user\<close>,
  \<open>passw\<close>, \<open>httpTimeout\<close> and \<open>strDirPerms\<close> point to.
\<close>

record args =
  arg_colllink :: string
  arg_query :: string
  arg_fieldlist :: string
  arg_sort :: string
  arg_rows :: int
  arg_dst :: string
  arg_user :: string
  arg_password :: string
  arg_httpTimeout :: int
  arg_perms :: string

text \<open>
  What \<open>parceArgs\<close> reads from outside: \<open>os.Args\<close>; the argument parser, which returns
  the usage text on an error; the match of the constant regular expression \<open>reLink\<close>
  (nil, or the whole match and the nine groups); the process environment, where
  \<open>os.Getenv\<close> returns the empty string for an unset variable.
\<close>

record sys =
  osArgs :: "string list"
  Parse :: "string list \<Rightarrow> error + args"
  FindStringSubmatch :: "string \<Rightarrow> string list option"
  Getenv :: "string \<Rightarrow> string"

definition userEnv :: string where "userEnv = ''SOLRUSER''"

definition passwEnv :: string where "passwEnv = ''SOLRPASSW''"

text \<open>
  \<open>strconv.ParseUint(s, 8, 32)\<close>: a non-empty string of octal digits whose value fits
  into 32 bits.
\<close>

fun octal :: "nat \<Rightarrow> string \<Rightarrow> nat option" where
  "octal acc [] = Some acc"
| "octal acc (ch # cs) =
     (if ch \<in> set ''01234567'' then octal (8 * acc + (of_char ch - 48)) cs else None)"

definition ParseUint_8_32 :: "string \<Rightarrow> error + 32 word" where
  "ParseUint_8_32 s =
     (if s = [] then Inl ''invalid syntax''
      else (case octal 0 s of
              None \<Rightarrow> Inl ''invalid syntax''
            | Some n \<Rightarrow> if n < 2 ^ 32 then Inr (word_of_nat n) else Inl ''value out of range''))"

text \<open>
  \<open>parceArgs\<close> returns the collection name and the parameters, or an error. The two
  calls of \<open>os.Getenv\<close> are expression statements: their results are not assigned to
  anything.
\<close>

definition parceArgs :: "sys \<Rightarrow> error + string \<times> params" where
  "parceArgs w =
     (case Parse w (osArgs w) of
        Inl usage \<Rightarrow> Inl usage
      | Inr a \<Rightarrow>
          (case FindStringSubmatch w (arg_colllink a) of
             None \<Rightarrow>
               Inl (''wrong http link to a solr collection '' @ [CHR 0x22] @ arg_colllink a
                      @ [CHR 0x22] @ nl)
           | Some strs \<Rightarrow>
               (case ParseUint_8_32 (arg_perms a) of
                  Inl err \<Rightarrow> Inl ''wrong directory permissions''
                | Inr perms \<Rightarrow>
                    (let discarded1 = (if arg_user a = [] then Getenv w userEnv else []);
                         discarded2 = (if arg_password a = [] then Getenv w passwEnv else []);
                         p = \<lparr> cLink = arg_colllink a, q = arg_query a, fl = arg_fieldlist a,
                               sort' = arg_sort a, dstDir = arg_dst a, user = arg_user a,
                               passw = arg_password a, rows = arg_rows a,
                               httpTimeout = arg_httpTimeout a, dirPerms = perms \<rparr>
                     in if length strs \<le> 9 then Inl ''panic: index out of range''
                        else if strs ! 9 = [] then Inr (strs ! 8, p)
                        else Inr (strs ! 9, p)))))"

text \<open>
  A command line without \<open>-u\<close> and \<open>-p\<close>, in an environment that sets both
  \<open>SOLRUSER\<close> and \<open>SOLRPASSW\<close>.
\<close>

definition sampleSys :: sys where
  "sampleSys =
     \<lparr> osArgs = [''solrdump'', ''-c'', ''http://solrsrv01:8983/solr/gettingstarted'',
                 ''-s'', ''id asc''],
       Parse = (\<lambda>argv. Inr \<lparr> arg_colllink = argv ! 2, arg_query = ''*:*'', arg_fieldlist = [],
           arg_sort = argv ! 4, arg_rows = 100000, arg_dst = ''.'', arg_user = [],
           arg_password = [], arg_httpTimeout = 180, arg_perms = ''0755'' \<rparr>),
       FindStringSubmatch = (\<lambda>link.
         if link = ''http://solrsrv01:8983/solr/gettingstarted''
         then Some [link, link, ''http'', ''solrsrv01:8983'', ''solrsrv01:8983'',
                    ''solrsrv01:8983'', [], [], ''gettingstarted'', []]
         else None),
       Getenv = (\<lambda>name. if name = ''SOLRUSER'' then ''solr''
                        else if name = ''SOLRPASSW'' then ''SolrRocks'' else []) \<rparr>"

section \<open>Properties of the page writer\<close>

lemma mapM_Inr_iff: "mapM f xs = Inr ys \<longleftrightarrow> map f xs = map Inr ys"
proof (induction xs arbitrary: ys)
  case Nil
  then show ?case by auto
next
  case (Cons x xs)
  show ?case
  proof (cases "f x")
    case (Inl err)
    then show ?thesis by (cases ys) auto
  next
    case fx: (Inr y)
    show ?thesis
    proof (cases "mapM f xs")
      case (Inl err)
      with Cons.IH have "map f xs \<noteq> map Inr zs" for zs by (metis sum.distinct(1))
      with Inl fx show ?thesis by (cases ys) auto
    next
      case (Inr zs)
      with Cons.IH fx show ?thesis by (cases ys) auto
    qed
  qed
qed

lemma rmVerLoop_Inr:
  assumes "mapM (rmVerDoc j) ds = Inr outs" and "l = n + int (length ds)"
  shows "rmVerLoop j l n ds data =
           Inr (if ds = [] then data else data @ joinComma outs)"
  using assms
proof (induction ds arbitrary: n data outs)
  case Nil
  then show ?case by simp
next
  case (Cons d ds)
  from Cons.prems(1) obtain y ys where y: "rmVerDoc j d = Inr y"
    and ys: "mapM (rmVerDoc j) ds = Inr ys" and outs: "outs = y # ys"
    by (auto split: sum.splits)
  have l: "l = (n + 1) + int (length ds)" using Cons.prems(2) by simp
  show ?case
  proof (cases ds)
    case Nil
    with y ys outs Cons.prems(2) show ?thesis by simp
  next
    case (Cons d' ds')
    with ys obtain y' ys' where "ys = y' # ys'" by (auto split: sum.splits)
    with Cons.IH [OF ys l] y outs Cons Cons.prems(2) show ?thesis by simp
  qed
qed

lemma rmVerLoop_Inl:
  assumes "mapM (rmVerDoc j) ds = Inl err"
  shows "rmVerLoop j l n ds data = Inl err"
  using assms
  by (induction ds arbitrary: n data) (auto split: sum.splits)

lemma rmVerField_eq:
  "rmVerField j docs =
     (case mapM (rmVerDoc j) (elems docs) of
        Inl err \<Rightarrow> Inl err
      | Inr outs \<Rightarrow> Inr (''['' @ joinComma outs @ '']'' @ nl))"
proof (cases "mapM (rmVerDoc j) (elems docs)")
  case (Inl err)
  then show ?thesis by (simp add: rmVerField_def rmVerLoop_Inl)
next
  case (Inr outs)
  have "rmVerLoop j (len docs) 0 (elems docs) ''['' =
          Inr (if elems docs = [] then ''['' else ''['' @ joinComma outs)"
    by (rule rmVerLoop_Inr [OF Inr]) (simp add: len_def)
  moreover have "elems docs = [] \<Longrightarrow> outs = []" using Inr by simp
  ultimately show ?thesis using Inr by (simp add: rmVerField_def)
qed

text \<open>
  C10. For a page with zero documents (a nil or an empty slice), the stripping
  transformation returns exactly the bytes \<open>[\<close>, \<open>]\<close> and a newline: an empty JSON
  array with a trailing newline, not an error and not an empty file.
\<close>

theorem rmVerField_no_docs:
  "rmVerField j None = Inr (''[]'' @ nl) \<and> rmVerField j (Some []) = Inr (''[]'' @ nl)"
  by (simp add: rmVerField_def elems_def len_def)

lemma lookup_delete: "lookup (delete m k) k' = (if k' = k then None else lookup m k')"
  by (cases m) (simp_all add: lookup_def delete_def)

lemma encodePage_strip:
  "encodePage j True docs =
     (case mapM (rmVerDoc j) (elems docs) of
        Inl err \<Rightarrow> Inl err
      | Inr outs \<Rightarrow> Inr (''['' @ joinComma outs @ '']'' @ nl))"
  by (simp add: encodePage_def rmVerField_eq)

lemma encodePage_raw:
  "encodePage j False (Some ds) =
     (case mapM (MarshalRaw j) ds of
        Inl err \<Rightarrow> Inl err
      | Inr outs \<Rightarrow> Inr (''['' @ joinComma outs @ '']'' @ nl))"
  by (simp add: encodePage_def MarshalDocs_def split: sum.splits)

lemmas eval_simps = init_def step_def mainStep_def taskStep_def saveSolrResp_def
  encodePage_strip rmVerDoc_def delete_def elems_def fmtInt_def decimal.simps
  sampleConfig_def sampleJSON_def okWriter_def unwritable_def fullDisk_def diskFull_def
  twoPages_def pagesAndError_def

text \<open>
  The document transformation depends only on the document and on whether the field
  list is empty. With an empty field list every output document of a page is the
  encoding of the input document's decoded field mapping with \<open>_version_\<close> removed and
  every other field as decoded. With a field list the raw documents are handed to the
  encoder as they are: no document is decoded, changed or re-encoded as a mapping, so
  the result does not depend on \<open>Unmarshal\<close> and \<open>Marshal\<close> at all.
\<close>

lemma transform_by_mode:
  "(rmVerDoc j srcDoc = Inr dstDoc \<longrightarrow>
      (\<exists>tdoc. Unmarshal j srcDoc = Inr tdoc
          \<and> Marshal j (delete tdoc ''_version_'') = Inr dstDoc
          \<and> lookup (delete tdoc ''_version_'') ''_version_'' = None
          \<and> (\<forall>k. k \<noteq> ''_version_'' \<longrightarrow> lookup (delete tdoc ''_version_'') k = lookup tdoc k)))
   \<and> (encodePage j True docs = Inr data \<longrightarrow>
      (\<exists>outs. map (rmVerDoc j) (elems docs) = map Inr outs
          \<and> data = ''['' @ joinComma outs @ '']'' @ nl))
   \<and> (encodePage j False (Some ds) = Inr data' \<longrightarrow>
      (\<exists>outs. map (MarshalRaw j) ds = map Inr outs
          \<and> data' = ''['' @ joinComma outs @ '']'' @ nl))
   \<and> encodePage (j\<lparr>Unmarshal := u, Marshal := m\<rparr>) False docs = encodePage j False docs"
proof (intro conjI impI)
  assume "rmVerDoc j srcDoc = Inr dstDoc"
  then obtain tdoc where "Unmarshal j srcDoc = Inr tdoc"
    and "Marshal j (delete tdoc ''_version_'') = Inr dstDoc"
    by (auto simp: rmVerDoc_def split: sum.splits)
  then show "\<exists>tdoc. Unmarshal j srcDoc = Inr tdoc
      \<and> Marshal j (delete tdoc ''_version_'') = Inr dstDoc
      \<and> lookup (delete tdoc ''_version_'') ''_version_'' = None
      \<and> (\<forall>k. k \<noteq> ''_version_'' \<longrightarrow> lookup (delete tdoc ''_version_'') k = lookup tdoc k)"
    by (auto simp: lookup_delete)
next
  assume "encodePage j True docs = Inr data"
  then show "\<exists>outs. map (rmVerDoc j) (elems docs) = map Inr outs
      \<and> data = ''['' @ joinComma outs @ '']'' @ nl"
    by (auto simp: encodePage_strip mapM_Inr_iff [symmetric] split: sum.splits)
next
  assume "encodePage j False (Some ds) = Inr data'"
  then show "\<exists>outs. map (MarshalRaw j) ds = map Inr outs
      \<and> data' = ''['' @ joinComma outs @ '']'' @ nl"
    by (auto simp: encodePage_raw mapM_Inr_iff [symmetric] split: sum.splits)
next
  show "encodePage (j\<lparr>Unmarshal := u, Marshal := m\<rparr>) False docs = encodePage j False docs"
    by (simp add: encodePage_def MarshalDocs_def split: option.splits)
qed

lemma transform_by_mode_example:
  \<open>rmVerDoc sampleJSON ''{"id":1,"_version_":7}'' = Inr ''{"id":1}''
   \<and> (\<exists>tdoc. Unmarshal sampleJSON ''{"id":1,"_version_":7}'' = Inr tdoc
        \<and> Marshal sampleJSON (delete tdoc ''_version_'') = Inr ''{"id":1}''
        \<and> lookup (delete tdoc ''_version_'') ''_version_'' = None
        \<and> (\<forall>k. k \<noteq> ''_version_'' \<longrightarrow> lookup (delete tdoc ''_version_'') k = lookup tdoc k))
   \<and> encodePage sampleJSON True (Some [''{"id":1,"_version_":7}'', ''{"id":2}''])
        = Inr (''[{"id":1},{"id":2}]'' @ nl)
   \<and> (\<exists>outs. map (rmVerDoc sampleJSON) (elems (Some [''{"id":1,"_version_":7}'', ''{"id":2}'']))
          = map Inr outs
        \<and> ''[{"id":1},{"id":2}]'' @ nl = ''['' @ joinComma outs @ '']'' @ nl)
   \<and> encodePage sampleJSON False (Some [''{"id":1,"_version_":7}'', ''{ "id": 2 }''])
        = Inr (''[{"id":1,"_version_":7},{"id":2}]'' @ nl)
   \<and> (\<exists>outs. map (MarshalRaw sampleJSON) [''{"id":1,"_version_":7}'', ''{ "id": 2 }'']
          = map Inr outs
        \<and> ''[{"id":1,"_version_":7},{"id":2}]'' @ nl = ''['' @ joinComma outs @ '']'' @ nl)\<close>
proof -
  have a: \<open>rmVerDoc sampleJSON ''{"id":1,"_version_":7}'' = Inr ''{"id":1}''\<close>
    by (simp add: rmVerDoc_def sampleJSON_def delete_def)
  have b: \<open>encodePage sampleJSON True (Some [''{"id":1,"_version_":7}'', ''{"id":2}''])
        = Inr (''[{"id":1},{"id":2}]'' @ nl)\<close>
    by (simp add: encodePage_strip elems_def rmVerDoc_def sampleJSON_def delete_def)
  have c: \<open>encodePage sampleJSON False (Some [''{"id":1,"_version_":7}'', ''{ "id": 2 }''])
        = Inr (''[{"id":1,"_version_":7},{"id":2}]'' @ nl)\<close>
    by (simp add: encodePage_raw sampleJSON_def)
  show ?thesis
    using a b c
      transform_by_mode [of sampleJSON \<open>''{"id":1,"_version_":7}''\<close> \<open>''{"id":1}''\<close>
        \<open>Some [''{"id":1,"_version_":7}'', ''{"id":2}'']\<close> \<open>''[{"id":1},{"id":2}]'' @ nl\<close>
        \<open>[''{"id":1,"_version_":7}'', ''{ "id": 2 }'']\<close>
        \<open>''[{"id":1,"_version_":7},{"id":2}]'' @ nl\<close>]
    by blast
qed

text \<open>
  C3. The code at a failing input: a document with an integer field beyond \<open>2^53\<close>,
  dumped with an empty field list. The output document omits \<open>_version_\<close>, but its
  field \<open>id\<close> no longer has the value of the input document: decoding into a field
  mapping has rounded it to the nearest \<open>float64\<close>.
\<close>

theorem large_integer_altered:
  \<open>rmVerDoc sampleJSON ''{"id":9007199254740993,"_version_":7}''
     = Inr ''{"id":9007199254740992}''\<close>
  by (simp add: rmVerDoc_def sampleJSON_def delete_def float64_def bitlen.simps
      decimal.simps Let_def)

text \<open>
  The bytes to save. In stripping mode they are \<open>[\<close>, the re-encoded documents in
  the order of the page with \<open>,\<close> between them, \<open>]\<close> and a newline. In non-stripping
  mode a non-nil document sequence is encoded as the JSON array of the raw documents'
  encodings, in the same order, followed by a newline, and a nil document sequence as
  \<open>null\<close> followed by a newline. When the file accepts the bytes, \<open>saveSolrResp\<close>
  writes exactly these and returns no error.
\<close>

lemma page_bytes:
  "(map (rmVerDoc j) (elems docs) = map Inr outs \<longrightarrow>
      encodePage j True docs = Inr (''['' @ joinComma outs @ '']'' @ nl))
   \<and> (map (MarshalRaw j) ds = map Inr outs' \<longrightarrow>
      encodePage j False (Some ds) = Inr (''['' @ joinComma outs' @ '']'' @ nl))
   \<and> encodePage j False None = Inr (''null'' @ nl)
   \<and> (encodePage j emptyfl page = Inr data \<and> Write dst data = (length data, None) \<longrightarrow>
      saveSolrResp j dst emptyfl page = (None, data, []))"
  by (simp add: encodePage_strip encodePage_raw mapM_Inr_iff [symmetric] saveSolrResp_def)
    (simp add: encodePage_def MarshalDocs_def)

lemma page_bytes_example:
  \<open>map (rmVerDoc sampleJSON) (elems (Some [''{"id":1,"_version_":7}'', ''{"id":2}'']))
     = map Inr [''{"id":1}'', ''{"id":2}'']
   \<and> encodePage sampleJSON True (Some [''{"id":1,"_version_":7}'', ''{"id":2}''])
     = Inr (''[{"id":1},{"id":2}]'' @ nl)
   \<and> map (MarshalRaw sampleJSON) [''{"id":1,"_version_":7}'', ''{ "id": 2 }'']
     = map Inr [''{"id":1,"_version_":7}'', ''{"id":2}'']
   \<and> encodePage sampleJSON False (Some [''{"id":1,"_version_":7}'', ''{ "id": 2 }''])
     = Inr (''[{"id":1,"_version_":7},{"id":2}]'' @ nl)
   \<and> Write okWriter (''[{"id":1},{"id":2}]'' @ nl) = (length (''[{"id":1},{"id":2}]'' @ nl), None)
   \<and> saveSolrResp sampleJSON okWriter True (Some [''{"id":1,"_version_":7}'', ''{"id":2}''])
     = (None, ''[{"id":1},{"id":2}]'' @ nl, [])\<close>
proof -
  have a: \<open>map (rmVerDoc sampleJSON) (elems (Some [''{"id":1,"_version_":7}'', ''{"id":2}'']))
     = map Inr [''{"id":1}'', ''{"id":2}'']\<close>
    by (simp add: elems_def rmVerDoc_def sampleJSON_def delete_def)
  have b: \<open>map (MarshalRaw sampleJSON) [''{"id":1,"_version_":7}'', ''{ "id": 2 }'']
     = map Inr [''{"id":1,"_version_":7}'', ''{"id":2}'']\<close>
    by (simp add: sampleJSON_def)
  have c: \<open>Write okWriter (''[{"id":1},{"id":2}]'' @ nl)
      = (length (''[{"id":1},{"id":2}]'' @ nl), None)\<close>
    by (simp add: okWriter_def)
  note t = page_bytes [of sampleJSON \<open>Some [''{"id":1,"_version_":7}'', ''{"id":2}'']\<close>
      \<open>[''{"id":1}'', ''{"id":2}'']\<close> \<open>[''{"id":1,"_version_":7}'', ''{ "id": 2 }'']\<close>
      \<open>[''{"id":1,"_version_":7}'', ''{"id":2}'']\<close> True
      \<open>Some [''{"id":1,"_version_":7}'', ''{"id":2}'']\<close>
      \<open>''[{"id":1},{"id":2}]'' @ nl\<close> okWriter]
  from t a have d: \<open>encodePage sampleJSON True (Some [''{"id":1,"_version_":7}'', ''{"id":2}''])
     = Inr (''[{"id":1},{"id":2}]'' @ nl)\<close> by simp
  from t b have e: \<open>encodePage sampleJSON False (Some [''{"id":1,"_version_":7}'', ''{ "id": 2 }''])
     = Inr (''[{"id":1,"_version_":7},{"id":2}]'' @ nl)\<close> by simp
  from t c d have \<open>saveSolrResp sampleJSON okWriter True
      (Some [''{"id":1,"_version_":7}'', ''{"id":2}''])
     = (None, ''[{"id":1},{"id":2}]'' @ nl, [])\<close> by simp
  with a b c d e show ?thesis by blast
qed

text \<open>
  C4. The code at a failing input: a page whose document slice is nil, dumped with a
  field list (stripping disabled). The file holds \<open>null\<close> and a newline, which is not a
  JSON array. For the same page the stripping branch writes \<open>[]\<close> and a newline, and
  so does the non-stripping branch for an empty slice that is not nil.
\<close>

theorem nil_page_is_null:
  "saveSolrResp sampleJSON okWriter False None = (None, ''null'' @ nl, [])
   \<and> hd (''null'' @ nl) \<noteq> CHR ''[''
   \<and> saveSolrResp sampleJSON okWriter True None = (None, ''[]'' @ nl, [])
   \<and> saveSolrResp sampleJSON okWriter False (Some []) = (None, ''[]'' @ nl, [])"
  by (simp add: saveSolrResp_def encodePage_def MarshalDocs_def rmVerField_def elems_def
      len_def okWriter_def)

section \<open>Properties of the consumer loop\<close>

lemma sint_fileIdx: "n < 2 ^ 63 \<Longrightarrow> sint (word_of_nat n :: 64 word) = int n"
  by (simp add: signed_of_nat signed_take_bit_int_eq_self)

lemma fmtInt_nat: "fmtInt (int n) = decimal n"
  by (simp add: fmtInt_def)

lemma fmtInt_fileIdx:
  "k < 2 ^ 63 \<Longrightarrow> fmtInt (sint (word_of_nat k :: 64 word)) = decimal k"
  by (simp add: sint_fileIdx fmtInt_nat)

lemma run_invariant:
  assumes "run c s sched = Some s'" and "P s"
    and "\<And>s a s'. P s \<Longrightarrow> step c s a = Some s' \<Longrightarrow> P s'"
  shows "P s'"
  using assms(1,2)
proof (induction sched arbitrary: s)
  case Nil
  then show ?case by simp
next
  case (Cons a as)
  then obtain s1 where s1: "step c s a = Some s1" and r: "run c s1 as = Some s'"
    by (auto split: option.splits)
  from assms(3) [OF Cons.prems(2) s1] have "P s1" .
  with Cons.IH r show ?case by blast
qed

lemma taskStep_frame:
  assumes "taskStep c s k g = Some s'"
  shows "results s' = results s \<and> fileIdx s' = fileIdx s \<and> phase s' = phase s
    \<and> (\<exists>p. goroutines s' = (goroutines s)[k := g\<lparr>pc := p\<rparr>])"
  using assms
  by (auto simp: taskStep_def split: pc.splits sum.splits prod.splits)

lemma responses_append: "responses (xs @ ys) = responses xs @ responses ys"
  by (induction xs rule: responses.induct) simp_all


lemma dispatched_init: "dispatched c rs (init rs)"
  by (simp add: dispatched_def init_def)

lemma dispatched_step:
  assumes "dispatched c rs s" and "step c s a = Some s'"
  shows "dispatched c rs s'"
proof (cases a)
  case Main
  from assms(1) obtain seen where seen: "rs = seen @ results s"
    and idx: "fileIdx s = word_of_nat (Suc (length (responses seen)))"
    and rsp: "map resp (goroutines s) = responses seen"
    and nms: "map fName (goroutines s) =
            map (\<lambda>k. Join c (fullDirPath c)
                       (namePattern c @ fmtInt (sint (word_of_nat (Suc k) :: 64 word)) @ ''.json''))
              [0..<length (responses seen)]"
    unfolding dispatched_def by blast
  from assms(2) Main have ms: "mainStep c s = Some s'" by (simp add: step_def)
  show ?thesis
  proof (cases "phase s")
    case Draining
    show ?thesis
    proof (cases "results s")
      case Nil
      with ms Draining have "s' = s\<lparr>phase := Waiting\<rparr>" by (simp add: mainStep_def)
      with assms(1) show ?thesis by (simp add: dispatched_def)
    next
      case (Cons r rest)
      show ?thesis
      proof (cases r)
        case (Error e)
        with ms Draining Cons
        have s': "s' = s\<lparr>results := rest, stderr := stderr s @ [''query error. '' @ e @ nl]\<rparr>"
          by (simp add: mainStep_def)
        have "rs = (seen @ [Error e]) @ results s'" using seen Cons Error s' by simp
        moreover have "responses (seen @ [Error e]) = responses seen"
          by (simp add: responses_append)
        ultimately show ?thesis unfolding dispatched_def
          using idx rsp nms s' by (intro exI [of _ "seen @ [Error e]"]) simp
      next
        case (Response d)
        with ms Draining Cons
        have s': "s' = s\<lparr>results := rest, fileIdx := fileIdx s + 1, wg := wg s + 1,
            goroutines := goroutines s @
              [\<lparr>fName = Join c (fullDirPath c)
                   (namePattern c @ fmtInt (sint (fileIdx s)) @ ''.json''),
                resp = d, pc = AtCreate\<rparr>]\<rparr>"
          by (simp add: mainStep_def)
        have "rs = (seen @ [Response d]) @ results s'" using seen Cons Response s' by simp
        moreover have "responses (seen @ [Response d]) = responses seen @ [d]"
          by (simp add: responses_append)
        ultimately show ?thesis unfolding dispatched_def
          using idx rsp nms s' by (intro exI [of _ "seen @ [Response d]"]) simp
      qed
    qed
  next
    case Waiting
    with ms have "s' = s\<lparr>phase := Exited (statusCode s)\<rparr>"
      by (simp add: mainStep_def split: if_splits)
    with assms(1) show ?thesis by (simp add: dispatched_def)
  next
    case (Exited code)
    with ms show ?thesis by (simp add: mainStep_def)
  qed
next
  case (Task k)
  with assms(2) have k: "k < length (goroutines s)"
    and ts: "taskStep c s k (goroutines s ! k) = Some s'"
    by (auto simp: step_def split: if_splits)
  from taskStep_frame [OF ts] obtain p where fr: "results s' = results s" "fileIdx s' = fileIdx s"
    and gs: "goroutines s' = (goroutines s)[k := (goroutines s ! k)\<lparr>pc := p\<rparr>]"
    by blast
  have "map resp (goroutines s') = map resp (goroutines s)"
    using gs k by (simp add: map_update list_update_same_conv)
  moreover have "map fName (goroutines s') = map fName (goroutines s)"
    using gs k by (simp add: map_update list_update_same_conv)
  ultimately show ?thesis using assms(1) fr by (simp add: dispatched_def)
qed

lemma dispatched_run:
  assumes "run c (init rs) sched = Some s"
  shows "dispatched c rs s"
  by (rule run_invariant [where P = "dispatched c rs", OF assms dispatched_init])
    (rule dispatched_step)

lemma tasks_started:
  assumes "run c (init rs) sched = Some s" and "length (responses rs) < 2 ^ 63"
  shows "\<exists>seen. rs = seen @ results s
           \<and> map resp (goroutines s) = responses seen
           \<and> map fName (goroutines s) = map (dumpFile c) [1..<Suc (length (responses seen))]
           \<and> (results s = [] \<longrightarrow>
                map fName (goroutines s) = map (dumpFile c) [1..<Suc (length (responses rs))])"
proof -
  from dispatched_run [OF assms(1)] obtain seen where seen: "rs = seen @ results s"
    and rsp: "map resp (goroutines s) = responses seen"
    and nms: "map fName (goroutines s) =
            map (\<lambda>k. Join c (fullDirPath c)
                       (namePattern c @ fmtInt (sint (word_of_nat (Suc k) :: 64 word)) @ ''.json''))
              [0..<length (responses seen)]"
    unfolding dispatched_def by blast
  have "length (responses seen) \<le> length (responses rs)"
    using seen by (metis le_add1 length_append responses_append)
  with assms(2) have bound: "length (responses seen) < 2 ^ 63" by simp
  have "map fName (goroutines s) = map (\<lambda>k. dumpFile c (Suc k)) [0..<length (responses seen)]"
    unfolding nms
  proof (rule map_cong [OF refl])
    fix k assume "k \<in> set [0..<length (responses seen)]"
    with bound have "Suc k < 2 ^ 63" by simp
    then show "Join c (fullDirPath c)
        (namePattern c @ fmtInt (sint (word_of_nat (Suc k) :: 64 word)) @ ''.json'')
      = dumpFile c (Suc k)"
      by (simp only: dumpFile_def fmtInt_fileIdx)
  qed
  also have "\<dots> = map (dumpFile c) (map Suc [0..<length (responses seen)])"
    by simp
  also have "\<dots> = map (dumpFile c) [1..<Suc (length (responses seen))]"
    by (simp only: map_Suc_upt One_nat_def)
  finally have names: "map fName (goroutines s)
      = map (dumpFile c) [1..<Suc (length (responses seen))]" .
  show ?thesis
  proof (intro exI [of _ seen] conjI impI)
    assume "results s = []"
    with seen have "seen = rs" by simp
    with names show "map fName (goroutines s) = map (dumpFile c) [1..<Suc (length (responses rs))]"
      by simp
  qed (use seen rsp names in auto)
qed

text \<open>
  C2. For every stream with fewer than \<open>2^63\<close> pages (the range of the 64-bit \<open>int\<close>
  that holds the index) and for every schedule of the main goroutine and the write
  tasks: the tasks started so far are those of the pages received so far, in the order
  of arrival, and the \<open>k\<close>-th of them writes the file named with the index \<open>k\<close>,
  counted from 1. Error results start no task and consume no index. Once the stream
  is drained, the \<open>N\<close> pages of the stream have the files \<open>1\<close> to \<open>N\<close>.
\<close>

theorem file_indices:
  assumes "run c (init rs) sched = Some s" and "length (responses rs) < 2 ^ 63"
  shows "\<exists>seen. rs = seen @ results s
           \<and> map resp (goroutines s) = responses seen
           \<and> map fName (goroutines s) = map (dumpFile c) [1..<Suc (length (responses seen))]
           \<and> (results s = [] \<longrightarrow>
                map fName (goroutines s) = map (dumpFile c) [1..<Suc (length (responses rs))])"
  using assms by (rule tasks_started)

theorem file_indices_witness:
  "length (responses pagesAndError) < 2 ^ 63
   \<and> (\<exists>s. run sampleConfig (init pagesAndError) [Main, Task 0, Main, Main, Task 1, Task 0] = Some s
        \<and> results s = []
        \<and> map fName (goroutines s) = map (dumpFile sampleConfig) [1..<Suc 2]
        \<and> map fName (goroutines s) =
            [''dump/solrsrv01.8983.gettingstarted.1.json'',
             ''dump/solrsrv01.8983.gettingstarted.2.json''])"
proof -
  define s where
    "s = the (run sampleConfig (init pagesAndError) [Main, Task 0, Main, Main, Task 1, Task 0])"
  have r: "run sampleConfig (init pagesAndError) [Main, Task 0, Main, Main, Task 1, Task 0] = Some s"
    unfolding s_def by (simp add: eval_simps)
  have d: "results s = []"
    unfolding s_def by (simp add: eval_simps)
  have n: "length (responses pagesAndError) = 2" by (simp add: pagesAndError_def)
  then have b: "length (responses pagesAndError) < 2 ^ 63" by simp
  from file_indices [OF r b] d
  have "map fName (goroutines s) = map (dumpFile sampleConfig) [1..<Suc 2]"
    by (auto simp only: n)
  moreover have "map (dumpFile sampleConfig) [1..<Suc 2] =
            [''dump/solrsrv01.8983.gettingstarted.1.json'',
             ''dump/solrsrv01.8983.gettingstarted.2.json'']"
    by (simp add: dumpFile_def sampleConfig_def decimal.simps upt_rec)
  ultimately show ?thesis using r d b by auto
qed


lemma length_filter_update:
  assumes "k < length xs"
  shows "int (length (filter P (xs[k := y])))
       = int (length (filter P xs)) - (if P (xs ! k) then 1 else 0) + (if P y then 1 else 0)"
  using assms
proof (induction xs arbitrary: k)
  case Nil
  then show ?case by simp
next
  case (Cons x xs)
  show ?case
  proof (cases k)
    case 0
    then show ?thesis by simp
  next
    case (Suc n)
    with Cons.prems have "n < length xs" by simp
    from Cons.IH [OF this] Suc show ?thesis by (simp split: if_splits)
  qed
qed

lemma joined_init: "joined (init rs)"
  by (simp add: joined_def init_def outstanding_def)

lemma joined_step:
  assumes "joined s" and "step c s a = Some s'"
  shows "joined s'"
proof (cases a)
  case Main
  with assms(2) have ms: "mainStep c s = Some s'" by (simp add: step_def)
  show ?thesis
  proof (cases "phase s")
    case Draining
    with ms assms(1) show ?thesis
      by (auto simp: mainStep_def joined_def outstanding_def Let_def
          split: list.splits result.splits)
  next
    case Waiting
    with ms assms(1) show ?thesis
      by (auto simp: mainStep_def joined_def outstanding_def split: if_splits)
  next
    case (Exited code)
    with ms show ?thesis by (simp add: mainStep_def)
  qed
next
  case (Task k)
  with assms(2) have k: "k < length (goroutines s)"
    and ph: "phase s = Draining \<or> phase s = Waiting"
    and ts: "taskStep c s k (goroutines s ! k) = Some s'"
    by (auto simp: step_def split: if_splits)
  let ?g = "goroutines s ! k"
  note upd = length_filter_update [OF k, of "\<lambda>g. pc g \<noteq> Finished"]
  from ts have "wg s' = int (length (outstanding s'))"
    using assms(1) k upd
    by (auto simp: taskStep_def joined_def outstanding_def
        split: pc.splits sum.splits prod.splits if_splits)
  moreover from taskStep_frame [OF ts] have "results s' = results s" "phase s' = phase s"
    by auto
  ultimately show ?thesis using assms(1) ph by (auto simp: joined_def)
qed

lemma joined_run:
  assumes "run c (init rs) sched = Some s"
  shows "joined s"
  by (rule run_invariant [where P = joined, OF assms joined_init]) (rule joined_step)

text \<open>
  C6. In every run, under every schedule: when the process has exited, the stream was
  drained, no write task is outstanding, and every page of the stream had a task that
  has returned. While a task is outstanding, the main goroutine cannot reach
  \<open>os.Exit\<close>; and as long as the process has not exited, every task that has not
  returned can take its next step.
\<close>

theorem exit_after_all_tasks:
  "(run c (init rs) sched = Some s \<and> phase s = Exited code \<longrightarrow>
      results s = [] \<and> outstanding s = [] \<and> (\<forall>g \<in> set (goroutines s). pc g = Finished)
      \<and> map resp (goroutines s) = responses rs)
   \<and> (run c (init rs) sched = Some s \<and> outstanding s \<noteq> [] \<longrightarrow>
        (\<forall>s'. step c s Main = Some s' \<longrightarrow> phase s' \<in> {Draining, Waiting}))
   \<and> (run c (init rs) sched = Some s \<and> phase s \<in> {Draining, Waiting} \<longrightarrow>
        (\<forall>k < length (goroutines s). pc (goroutines s ! k) \<noteq> Finished \<longrightarrow>
           step c s (Task k) \<noteq> None))"
proof (intro conjI impI)
  assume a: "run c (init rs) sched = Some s \<and> phase s = Exited code"
  from a joined_run have j: "joined s" by blast
  with a show "results s = []" by (simp add: joined_def)
  from j a have "int (length (outstanding s)) = 0" by (auto simp: joined_def)
  then show o: "outstanding s = []" by simp
  then show "\<forall>g \<in> set (goroutines s). pc g = Finished"
    by (auto simp: outstanding_def filter_empty_conv)
  from a dispatched_run have "dispatched c rs s" by blast
  with \<open>results s = []\<close> show "map resp (goroutines s) = responses rs"
    by (auto simp: dispatched_def)
next
  assume a: "run c (init rs) sched = Some s \<and> outstanding s \<noteq> []"
  from a joined_run have "joined s" by blast
  with a have "wg s \<noteq> 0" by (simp add: joined_def)
  then show "\<forall>s'. step c s Main = Some s' \<longrightarrow> phase s' \<in> {Draining, Waiting}"
    by (auto simp: step_def mainStep_def Let_def
        split: phase.splits list.splits result.splits if_splits)
next
  assume a: "run c (init rs) sched = Some s \<and> phase s \<in> {Draining, Waiting}"
  then show "\<forall>k < length (goroutines s). pc (goroutines s ! k) \<noteq> Finished \<longrightarrow>
           step c s (Task k) \<noteq> None"
    by (auto simp: step_def taskStep_def split: pc.splits sum.splits prod.splits)
qed

theorem exit_after_all_tasks_witness:
  "(\<exists>s. run sampleConfig (init pagesAndError)
           [Main, Main, Main, Main, Task 1, Task 0, Task 1, Task 1, Task 0, Task 0, Main] = Some s
        \<and> phase s = Exited 0 \<and> results s = [] \<and> outstanding s = []
        \<and> map pc (goroutines s) = [Finished, Finished])
   \<and> (\<exists>s. run sampleConfig (init pagesAndError) [Main, Main, Main, Main, Task 1] = Some s
        \<and> phase s = Waiting \<and> outstanding s \<noteq> [] \<and> step sampleConfig s Main = None
        \<and> step sampleConfig s (Task 0) \<noteq> None)"
proof -
  define s where "s = the (run sampleConfig (init pagesAndError)
           [Main, Main, Main, Main, Task 1, Task 0, Task 1, Task 1, Task 0, Task 0, Main])"
  have r: "run sampleConfig (init pagesAndError)
           [Main, Main, Main, Main, Task 1, Task 0, Task 1, Task 1, Task 0, Task 0, Main] = Some s"
    unfolding s_def by (simp add: eval_simps)
  have p: "phase s = Exited 0" unfolding s_def by (simp add: eval_simps)
  define m where "m = the (run sampleConfig (init pagesAndError) [Main, Main, Main, Main, Task 1])"
  have rm: "run sampleConfig (init pagesAndError) [Main, Main, Main, Main, Task 1] = Some m"
    unfolding m_def by (simp add: eval_simps)
  have pm: "phase m = Waiting" "outstanding m \<noteq> []" "length (goroutines m) = 2"
    "pc (goroutines m ! 0) = AtCreate"
    unfolding m_def by (simp_all add: eval_simps outstanding_def)
  from exit_after_all_tasks [of sampleConfig pagesAndError _ s 0] r p
  have "results s = [] \<and> outstanding s = [] \<and> (\<forall>g \<in> set (goroutines s). pc g = Finished)
      \<and> map resp (goroutines s) = responses pagesAndError"
    by blast
  moreover have "length (goroutines s) = 2" unfolding s_def by (simp add: eval_simps)
  ultimately have fin: "results s = []" "outstanding s = []"
    "map pc (goroutines s) = [Finished, Finished]"
    by (auto simp: length_Suc_conv numeral_2_eq_2)
  note t = exit_after_all_tasks
    [of sampleConfig pagesAndError "[Main, Main, Main, Main, Task 1]" m]
  from t rm pm(2)
  have a: "\<forall>s'. step sampleConfig m Main = Some s' \<longrightarrow> phase s' \<in> {Draining, Waiting}"
    by blast
  from t rm pm(1)
  have "\<forall>k < length (goroutines m). pc (goroutines m ! k) \<noteq> Finished \<longrightarrow>
      step sampleConfig m (Task k) \<noteq> None"
    by blast
  then have "0 < length (goroutines m) \<longrightarrow> pc (goroutines m ! 0) \<noteq> Finished \<longrightarrow>
      step sampleConfig m (Task 0) \<noteq> None"
    by blast
  with pm(3,4) have b: "step sampleConfig m (Task 0) \<noteq> None" by simp
  note a b
  moreover have "step sampleConfig m Main = None \<or> (\<exists>s'. step sampleConfig m Main = Some s'
      \<and> (\<exists>code. phase s' = Exited code))"
    using pm(1) by (auto simp: step_def mainStep_def)
  ultimately have "step sampleConfig m Main = None" "step sampleConfig m (Task 0) \<noteq> None"
    by (auto simp del: run.simps)
  then have blocked: "step sampleConfig m Main = None"
    and enabled: "step sampleConfig m (Task 0) \<noteq> None" .
  show ?thesis
    by (intro conjI exI [of _ s] exI [of _ m] r p fin rm pm(1,2) blocked enabled)
qed

lemma status_inv_init: "status_inv c (init rs)"
  by (simp add: status_inv_def init_def)

lemma in_set_updateD: "h \<in> set (xs[k := y]) \<Longrightarrow> h = y \<or> h \<in> set xs"
  using set_update_subset_insert by fastforce

lemma status_inv_main:
  assumes "status_inv c s" and "mainStep c s = Some s'"
  shows "status_inv c s'"
proof (cases "phase s")
  case Draining
  with assms show ?thesis
    by (cases "results s")
      (auto simp: mainStep_def status_inv_def Let_def split: result.splits)
next
  case Waiting
  with assms show ?thesis
    by (auto simp: mainStep_def status_inv_def split: if_splits)
next
  case (Exited code)
  with assms show ?thesis by (simp add: mainStep_def)
qed

lemma status_inv_task:
  assumes inv: "status_inv c s" and k: "k < length (goroutines s)"
    and ts: "taskStep c s k (goroutines s ! k) = Some s'"
  shows "status_inv c s'"
proof -
  let ?g = "goroutines s ! k"
  have g: "?g \<in> set (goroutines s)" using k by simp
  from inv have code: "statusCode s = 0 \<or> statusCode s = 10"
    and ex: "statusCode s = 10 \<Longrightarrow> \<exists>g \<in> set (goroutines s). saveFails c (fName g) (resp g)"
    and old: "\<And>h. h \<in> set (goroutines s) \<Longrightarrow>
          (\<forall>dst. pc h = AtSave dst \<longrightarrow> Create c (fName h) = Inr dst)
          \<and> (pc h = AtStore \<longrightarrow> saveFails c (fName h) (resp h))
          \<and> ((pc h = AtDone \<or> pc h = Finished) \<and> saveFails c (fName h) (resp h)
                \<longrightarrow> statusCode s = 10)"
    unfolding status_inv_def by blast+
  have keep: "\<exists>h \<in> set ((goroutines s)[k := ?g\<lparr>pc := p\<rparr>]). saveFails c (fName h) (resp h)"
    if "\<exists>h \<in> set (goroutines s). saveFails c (fName h) (resp h)" for p
  proof -
    from that obtain h where h: "h \<in> set (goroutines s)" "saveFails c (fName h) (resp h)"
      by blast
    then obtain n where n: "n < length (goroutines s)" "goroutines s ! n = h"
      by (auto simp: in_set_conv_nth)
    let ?xs = "(goroutines s)[k := ?g\<lparr>pc := p\<rparr>]"
    have "?xs ! n \<in> set ?xs" using n by simp
    moreover have "fName (?xs ! n) = fName h \<and> resp (?xs ! n) = resp h"
      using n k by (cases "n = k") auto
    ultimately show ?thesis using h by metis
  qed
  have mine: "?g\<lparr>pc := p\<rparr> \<in> set ((goroutines s)[k := ?g\<lparr>pc := p\<rparr>])" for p
    using k by (simp add: set_update_memI)
  show ?thesis
  proof (cases "pc ?g")
    case AtCreate
    show ?thesis
    proof (cases "Create c (fName ?g)")
      case (Inl err)
      with ts AtCreate have s': "statusCode s' = statusCode s"
        "goroutines s' = (goroutines s)[k := ?g\<lparr>pc := AtDone\<rparr>]"
        by (auto simp: taskStep_def)
      have "\<not> saveFails c (fName ?g) (resp ?g)" using Inl by (simp add: saveFails_def)
      then show ?thesis unfolding status_inv_def s'
        using code ex keep [of AtDone] old by (auto dest!: in_set_updateD)
    next
      case (Inr dst)
      with ts AtCreate have s': "statusCode s' = statusCode s"
        "goroutines s' = (goroutines s)[k := ?g\<lparr>pc := AtSave dst\<rparr>]"
        by (auto simp: taskStep_def)
      show ?thesis unfolding status_inv_def s'
        using code ex keep [of "AtSave dst"] old Inr by (auto dest!: in_set_updateD)
    qed
  next
    case (AtSave dst)
    with old [OF g] have cr: "Create c (fName ?g) = Inr dst" by simp
    obtain err written msgs where sv:
      "saveSolrResp (json c) dst (flEmpty c) (resp ?g) = (err, written, msgs)"
      by (cases "saveSolrResp (json c) dst (flEmpty c) (resp ?g)") auto
    show ?thesis
    proof (cases err)
      case None
      with ts AtSave sv have s': "statusCode s' = statusCode s"
        "goroutines s' = (goroutines s)[k := ?g\<lparr>pc := AtDone\<rparr>]"
        by (auto simp: taskStep_def)
      have "\<not> saveFails c (fName ?g) (resp ?g)" using cr sv None by (simp add: saveFails_def)
      then show ?thesis unfolding status_inv_def s'
        using code ex keep [of AtDone] old by (auto dest!: in_set_updateD)
    next
      case (Some e)
      with ts AtSave sv have s': "statusCode s' = statusCode s"
        "goroutines s' = (goroutines s)[k := ?g\<lparr>pc := AtStore\<rparr>]"
        by (auto simp: taskStep_def)
      have "saveFails c (fName ?g) (resp ?g)" using cr sv Some by (simp add: saveFails_def)
      then show ?thesis unfolding status_inv_def s'
        using code ex keep [of AtStore] old by (auto dest!: in_set_updateD)
    qed
  next
    case AtStore
    with ts have s': "statusCode s' = 10"
      "goroutines s' = (goroutines s)[k := ?g\<lparr>pc := AtDone\<rparr>]"
      by (auto simp: taskStep_def)
    from old [OF g] AtStore have "saveFails c (fName ?g) (resp ?g)" by simp
    then have "\<exists>h \<in> set ((goroutines s)[k := ?g\<lparr>pc := AtDone\<rparr>]).
        saveFails c (fName h) (resp h)"
      by (intro bexI [OF _ mine [of AtDone]]) simp
    then show ?thesis unfolding status_inv_def s'
      using old by (auto dest!: in_set_updateD)
  next
    case AtDone
    with ts have s': "statusCode s' = statusCode s"
      "goroutines s' = (goroutines s)[k := ?g\<lparr>pc := Finished\<rparr>]"
      by (auto simp: taskStep_def)
    from old [OF g] AtDone
    have "saveFails c (fName ?g) (resp ?g) \<Longrightarrow> statusCode s = 10" by simp
    then show ?thesis unfolding status_inv_def s'
      using code ex keep [of Finished] old by (auto dest!: in_set_updateD)
  next
    case Finished
    with ts show ?thesis by (simp add: taskStep_def)
  qed
qed

lemma status_inv_step:
  assumes "status_inv c s" and "step c s a = Some s'"
  shows "status_inv c s'"
  using assms
  by (cases a) (auto simp: step_def intro: status_inv_main status_inv_task split: if_splits)

lemma status_inv_run:
  assumes "run c (init rs) sched = Some s"
  shows "status_inv c s"
  by (rule run_invariant [where P = "status_inv c", OF assms status_inv_init])
    (rule status_inv_step)

lemma exit_status:
  assumes "run c (init rs) sched = Some s" and "phase s = Exited code"
  shows "code = (if \<exists>g \<in> set (goroutines s). saveFails c (fName g) (resp g) then 10 else 0)"
proof -
  from joined_run [OF assms(1)] assms(2) have code: "code = statusCode s"
    and "int (length (outstanding s)) = 0"
    by (auto simp: joined_def)
  then have fin: "\<And>g. g \<in> set (goroutines s) \<Longrightarrow> pc g = Finished"
    by (auto simp: outstanding_def filter_empty_conv)
  from status_inv_run [OF assms(1)] have "status_inv c s" .
  with fin code show ?thesis unfolding status_inv_def by auto
qed

lemma exit_status_pages:
  assumes "run c (init rs) sched = Some s" and "phase s = Exited code"
    and "length (responses rs) < 2 ^ 63"
  shows "code = (if \<exists>k < length (responses rs).
                     saveFails c (dumpFile c (Suc k)) (responses rs ! k) then 10 else 0)"
proof -
  from joined_run [OF assms(1)] assms(2) have drained: "results s = []"
    by (simp add: joined_def)
  from tasks_started [OF assms(1,3)] drained
  have rsp: "map resp (goroutines s) = responses rs"
    and nms: "map fName (goroutines s) = map (dumpFile c) [1..<Suc (length (responses rs))]"
    by auto
  from rsp have len: "length (goroutines s) = length (responses rs)" by (metis length_map)
  have at: "fName (goroutines s ! k) = dumpFile c (Suc k) \<and> resp (goroutines s ! k) = responses rs ! k"
    if "k < length (responses rs)" for k
  proof -
    from that len have "map fName (goroutines s) ! k = fName (goroutines s ! k)"
      "map resp (goroutines s) ! k = resp (goroutines s ! k)" by simp_all
    moreover from that have "map (dumpFile c) [1..<Suc (length (responses rs))] ! k
        = dumpFile c (Suc k)" by (simp del: upt_Suc)
    ultimately show ?thesis using rsp nms by simp
  qed
  have "(\<exists>g \<in> set (goroutines s). saveFails c (fName g) (resp g))
      \<longleftrightarrow> (\<exists>k < length (responses rs). saveFails c (dumpFile c (Suc k)) (responses rs ! k))"
  proof
    assume "\<exists>g \<in> set (goroutines s). saveFails c (fName g) (resp g)"
    then obtain k where "k < length (goroutines s)"
      "saveFails c (fName (goroutines s ! k)) (resp (goroutines s ! k))"
      by (auto simp: in_set_conv_nth)
    with at [of k] len show "\<exists>k < length (responses rs).
        saveFails c (dumpFile c (Suc k)) (responses rs ! k)" by auto
  next
    assume "\<exists>k < length (responses rs). saveFails c (dumpFile c (Suc k)) (responses rs ! k)"
    then obtain k where k: "k < length (responses rs)"
      "saveFails c (dumpFile c (Suc k)) (responses rs ! k)" by blast
    with at [of k] have "saveFails c (fName (goroutines s ! k)) (resp (goroutines s ! k))"
      by simp
    moreover have "goroutines s ! k \<in> set (goroutines s)" using k len by simp
    ultimately show "\<exists>g \<in> set (goroutines s). saveFails c (fName g) (resp g)" by blast
  qed
  with exit_status [OF assms(1,2)] show ?thesis by simp
qed

text \<open>
  C1. The code at a failing input: a stream of two pages, where the file of the first
  page cannot be created. Under every schedule the process exits with status 0, not
  with 10: the task that fails in \<open>os.Create\<close> prints the error and returns without
  assigning \<open>statusCode\<close>.
\<close>

theorem create_failure_exits_zero:
  assumes "run unwritable (init twoPages) sched = Some s" and "phase s = Exited code"
  shows "code = 0"
proof -
  have n: "length (responses twoPages) = 2" by (simp add: twoPages_def)
  then have "length (responses twoPages) < 2 ^ 63" by simp
  from exit_status_pages [OF assms this]
  have "code = (if \<exists>k < 2. saveFails unwritable (dumpFile unwritable (Suc k))
            (responses twoPages ! k) then 10 else 0)"
    by (simp only: n)
  moreover have "\<not> saveFails unwritable (dumpFile unwritable (Suc k)) (responses twoPages ! k)"
    if "k < 2" for k
  proof -
    from that have "k = 0 \<or> k = 1" by auto
    then show ?thesis
      by (auto simp: saveFails_def dumpFile_def eval_simps)
  qed
  ultimately show ?thesis by auto
qed

theorem create_failure_exits_zero_witness:
  \<open>map_option (\<lambda>s. (phase s, stderr s, map pc (goroutines s),
                    files s ''dump/solrsrv01.8983.gettingstarted.1.json'',
                    files s ''dump/solrsrv01.8983.gettingstarted.2.json''))
     (run unwritable (init twoPages)
        [Main, Main, Main, Task 0, Task 0, Task 1, Task 1, Task 1, Main])
   = Some (Exited 0,
           [''error of creating the file dump/solrsrv01.8983.gettingstarted.1.json. ''
              @ ''permission denied'' @ nl],
           [Finished, Finished],
           None,
           Some (''[{"id":2}]'' @ nl))\<close>
proof -
  define s where "s = the (run unwritable (init twoPages)
        [Main, Main, Main, Task 0, Task 0, Task 1, Task 1, Task 1, Main])"
  have r: "run unwritable (init twoPages)
        [Main, Main, Main, Task 0, Task 0, Task 1, Task 1, Task 1, Main] = Some s"
    unfolding s_def by (simp add: eval_simps)
  have rest: "stderr s = [''error of creating the file dump/solrsrv01.8983.gettingstarted.1.json. ''
              @ ''permission denied'' @ nl]" "map pc (goroutines s) = [Finished, Finished]"
    "phase s = Exited (statusCode s)"
    "files s ''dump/solrsrv01.8983.gettingstarted.1.json'' = None"
    \<open>files s ''dump/solrsrv01.8983.gettingstarted.2.json'' = Some (''[{"id":2}]'' @ nl)\<close>
    unfolding s_def by (simp_all add: eval_simps)
  from create_failure_exits_zero [OF r rest(3)] have "statusCode s = 0" .
  with r rest show ?thesis by simp
qed

text \<open>
  C7. The code at a failing input: two pages on a full disk. Both write tasks stand
  before the plain assignment \<open>statusCode = 10\<close> at the same time, and the two
  assignments can run in either order: nothing in the program orders them.
\<close>

theorem unsynchronised_stores:
  "map_option (\<lambda>s. (statusCode s, map pc (goroutines s)))
     (run diskFull (init twoPages) [Main, Main, Task 0, Task 1, Task 0, Task 1])
     = Some (0, [AtStore, AtStore])
   \<and> map_option (\<lambda>s. (statusCode s, map pc (goroutines s)))
     (run diskFull (init twoPages) [Main, Main, Task 0, Task 1, Task 0, Task 1, Task 0, Task 1])
     = Some (10, [AtDone, AtDone])
   \<and> map_option (\<lambda>s. (statusCode s, map pc (goroutines s)))
     (run diskFull (init twoPages) [Main, Main, Task 0, Task 1, Task 0, Task 1, Task 1, Task 0])
     = Some (10, [AtDone, AtDone])"
  by (simp add: eval_simps)
























section \<open>The round trip of a written file\<close>























































section \<open>Properties of \<open>parceArgs\<close>\<close>

text \<open>
  C8. The code at a failing input: both credential flags are omitted and both
  environment variables are set. The parameters hold the empty user name and the empty
  password.
\<close>

theorem env_credentials_ignored:
  "arg_user (projr (Parse sampleSys (osArgs sampleSys))) = []
   \<and> arg_password (projr (Parse sampleSys (osArgs sampleSys))) = []
   \<and> Getenv sampleSys userEnv = ''solr'' \<and> Getenv sampleSys passwEnv = ''SolrRocks''
   \<and> map_sum id (\<lambda>(colName, p). (colName, user p, passw p)) (parceArgs sampleSys)
       = Inr (''gettingstarted'', [], [])"
  by (simp add: parceArgs_def sampleSys_def ParseUint_8_32_def userEnv_def passwEnv_def Let_def)

end
